theory Spec2Isabelle
  imports Complex_Main "HOL-Library.Sublist"
begin

section \<open>Python values used by the question-answering chain\<close>

text \<open>
  A Python \<open>str\<close> is a sequence of Unicode code points, so it is modelled as a list of
  natural numbers (one per code point), not as a list of bytes. \<open>ascii\<close> turns an
  Isabelle string literal into such a sequence.
\<close>

type_synonym py_str = "nat list"

definition ascii :: "string \<Rightarrow> py_str" where
  "ascii s = map of_char s"

text \<open>
  \<open>str.isspace\<close> of one code point: the table CPython uses for \<open>str.strip()\<close>
  without arguments.
\<close>

definition py_isspace :: "nat \<Rightarrow> bool" where
  "py_isspace c \<longleftrightarrow>
     (9 \<le> c \<and> c \<le> 13) \<or> (28 \<le> c \<and> c \<le> 32) \<or> c = 133 \<or> c = 160 \<or> c = 5760 \<or>
     (8192 \<le> c \<and> c \<le> 8202) \<or> c = 8232 \<or> c = 8233 \<or> c = 8239 \<or> c = 8287 \<or> c = 12288"

definition py_strip :: "py_str \<Rightarrow> py_str" where
  "py_strip s = rev (dropWhile py_isspace (rev (dropWhile py_isspace s)))"

text \<open>
  The slice \<open>xs[start:]\<close> for an integer \<open>start\<close>: a negative start counts from the
  end, and the start is clamped to the range of the list; a slice never raises.
\<close>

definition py_slice_from :: "int \<Rightarrow> 'a list \<Rightarrow> 'a list" where
  "py_slice_from start xs =
     (let n = int (length xs);
          s = (if start < 0 then max (start + n) 0 else min start n)
      in drop (nat s) xs)"

text \<open>Exceptions are values. The source itself has no \<open>raise\<close> statement.\<close>

datatype py_error = InputError | ProviderError py_str | TypeError

section \<open>The \<open>ZhipuQAChain\<close> object\<close>

text \<open>A turn is the pair \<open>(question, answer)\<close> stored in \<open>chat_history\<close>.\<close>

type_synonym turn = "py_str \<times> py_str"

text \<open>
  What \<open>_build_chain\<close> captures when it runs: the language model is constructed from
  the values of \<open>model_name\<close> and \<open>temperature\<close> at that moment, the retriever from
  the vector store and the value of \<open>top_k\<close> at that moment. Floats and integers are
  immutable values in Python, so the chain holds copies.
\<close>

record ZhipuaiLLM =
  llm_model_name :: py_str
  llm_temperature :: real

datatype chroma = Chroma (chroma_persist_directory: py_str)

record retriever =
  retr_vectordb :: chroma
  retr_k :: int

record runnable =
  chain_llm :: ZhipuaiLLM
  chain_retriever :: retriever

record ZhipuQAChain =
  model_name :: py_str
  temperature :: real
  top_k :: int
  persist_directory :: py_str
  chat_history :: "turn list"
  vectordb :: chroma
  chain :: runnable

definition get_vectordb :: "py_str \<Rightarrow> chroma" where
  "get_vectordb pd = Chroma pd"

definition build_chain :: "py_str \<Rightarrow> real \<Rightarrow> int \<Rightarrow> chroma \<Rightarrow> runnable" where
  "build_chain mn temp k db =
     \<lparr>chain_llm = \<lparr>llm_model_name = mn, llm_temperature = temp\<rparr>,
      chain_retriever = \<lparr>retr_vectordb = db, retr_k = k\<rparr>\<rparr>"

text \<open>
  \<open>__init__\<close>: the fields are stored, a missing history becomes the empty list, and
  the vector store handle and the chain are built once, here.
\<close>

definition init :: "py_str \<Rightarrow> real \<Rightarrow> int \<Rightarrow> py_str \<Rightarrow> turn list option \<Rightarrow> ZhipuQAChain" where
  "init mn temp k pd h =
     (let db = get_vectordb pd in
      \<lparr>model_name = mn, temperature = temp, top_k = k, persist_directory = pd,
       chat_history = (case h of None \<Rightarrow> [] | Some hs \<Rightarrow> hs),
       vectordb = db,
       chain = build_chain mn temp k db\<rparr>)"

text \<open>
  \<open>clear_history\<close> empties the list and returns \<open>True\<close>.
\<close>

definition clear_history :: "ZhipuQAChain \<Rightarrow> bool \<times> ZhipuQAChain" where
  "clear_history self = (True, self\<lparr>chat_history := []\<rparr>)"

text \<open>
  \<open>truncate_history\<close>: when the history is longer than \<open>max_length\<close> it is replaced by
  the slice \<open>chat_history[-max_length:]\<close>; the (possibly new) history is returned.
  No branch of the source raises, so every branch of the model is an \<open>Inr\<close>.
\<close>

definition truncate_history :: "int \<Rightarrow> ZhipuQAChain \<Rightarrow> py_error + (turn list \<times> ZhipuQAChain)" where
  "truncate_history max_length self =
     (let self' = (if int (length (chat_history self)) > max_length
                   then self\<lparr>chat_history := py_slice_from (- max_length) (chat_history self)\<rparr>
                   else self)
      in Inr (chat_history self', self'))"

section \<open>The chain built by \<open>_build_chain\<close>\<close>

text \<open>
  A chat message is the pair \<open>(role, content)\<close>, as in \<open>("human", human)\<close>. A
  retrieved document carries its text in \<open>page_content\<close>.
\<close>

type_synonym message = "py_str \<times> py_str"

datatype document = Document (page_content: py_str) (metadata: "(py_str \<times> py_str) list")

text \<open>
  The dictionary passed to \<open>chain.stream\<close>. \<open>stream_answer\<close> is its only caller and
  always passes exactly the keys \<open>input\<close> and \<open>chat_history\<close>, so it is a record.
  The chunks that come back are dictionaries whose keys vary, so they are maps.
\<close>

record chain_input =
  x_input :: py_str
  x_chat_history :: "message list"

datatype py_value = Str py_str | Messages "message list" | Documents "document list"

type_synonym chunk = "py_str \<rightharpoonup> py_value"

text \<open>
  The calls that leave the process: a call of the chat model (from the condensation
  branch or from the answer chain) and a call of the retriever. Each records the
  object that was called, hence the temperature and the \<open>k\<close> in force.
\<close>

datatype call_site = Condense | Generate

datatype event =
    LLM_call call_site ZhipuaiLLM "message list"
  | Retriever_call retriever py_str

text \<open>
  A lazy iterator is the finite script of what pulling on it does, in order: issue a
  call, hand over a chunk, or raise. Nothing of the script happens before it is pulled.
\<close>

datatype item = Effect event | Emit chunk | Raise py_error

text \<open>
  The external collaborators. The chat model answers a prompt with text fragments and
  either ends normally or fails after them; the retriever answers a query with
  documents or fails.
\<close>

record providers =
  llm_reply :: "ZhipuaiLLM \<Rightarrow> message list \<Rightarrow> py_str list \<times> py_error option"
  retriever_reply :: "retriever \<Rightarrow> py_str \<Rightarrow> py_error + document list"

definition condense_question_system_template :: py_str where
  "condense_question_system_template =
     [35831, 26681, 25454, 32842, 22825, 35760, 24405, 24635, 32467, 29992, 25143, 26368,
      36817, 30340, 38382, 39064, 65292] @
     [22914, 26524, 27809, 26377, 22810, 20313, 30340, 32842, 22825, 35760, 24405, 21017,
      36820, 22238, 29992, 25143, 30340, 38382, 39064, 12290]"

definition condense_question_prompt :: "chain_input \<Rightarrow> message list" where
  "condense_question_prompt x =
     (ascii ''system'', condense_question_system_template) # x_chat_history x @
     [(ascii ''human'', x_input x)]"

text \<open>The system prompt of the answer chain, with \<open>{context}\<close> filled in.\<close>

definition system_prompt :: "py_str \<Rightarrow> py_str" where
  "system_prompt context =
     [20320, 26159, 19968, 20010, 38382, 31572, 20219, 21153, 30340, 21161, 25163, 12290, 32] @
     [35831, 20351, 29992, 26816, 32034, 21040, 30340, 19978, 19979, 25991, 29255, 27573,
      22238, 31572, 36825, 20010, 38382, 39064, 12290, 32] @
     [22914, 26524, 20320, 19981, 30693, 36947, 31572, 26696, 23601, 35828, 19981, 30693,
      36947, 12290, 32] @
     [35831, 20351, 29992, 31616, 27905, 30340, 35805, 35821, 22238, 31572, 29992, 25143,
      12290] @
     [10, 10] @ context"

definition qa_prompt :: "py_str \<Rightarrow> chain_input \<Rightarrow> message list" where
  "qa_prompt context x =
     (ascii ''system'', system_prompt context) # x_chat_history x @
     [(ascii ''human'', x_input x)]"

fun py_join :: "py_str \<Rightarrow> py_str list \<Rightarrow> py_str" where
  "py_join sep [] = []"
| "py_join sep [s] = s"
| "py_join sep (s # t # ss) = s @ sep @ py_join sep (t # ss)"

definition combine_docs :: "document list \<Rightarrow> py_str" where
  "combine_docs docs = py_join [10, 10] (map page_content docs)"

text \<open>
  \<open>retrieve_docs\<close>, the \<open>RunnableBranch\<close>: when \<open>chat_history\<close> is falsy (the empty
  list) the retriever is given \<open>x["input"]\<close>; otherwise the condensation prompt goes to
  the chat model, the whole of its output is the query, and the retriever is given
  that. The result is the calls issued and the documents or the error.
\<close>

definition retrieve_docs ::
  "providers \<Rightarrow> runnable \<Rightarrow> chain_input \<Rightarrow> item list \<times> (py_error + document list)" where
  "retrieve_docs env ch x =
     (if x_chat_history x = [] then
        ([Effect (Retriever_call (chain_retriever ch) (x_input x))],
         retriever_reply env (chain_retriever ch) (x_input x))
      else
        (let p = condense_question_prompt x in
         case llm_reply env (chain_llm ch) p of
           (frags, Some e) \<Rightarrow> ([Effect (LLM_call Condense (chain_llm ch) p)], Inl e)
         | (frags, None) \<Rightarrow>
             (let q = concat frags in
              ([Effect (LLM_call Condense (chain_llm ch) p),
                Effect (Retriever_call (chain_retriever ch) q)],
               retriever_reply env (chain_retriever ch) q))))"

text \<open>
  \<open>qa_chain\<close>: the documents are joined into the context, the answer prompt goes to
  the chat model with the raw question, and each fragment of the reply becomes a chunk
  \<open>{"answer": fragment}\<close>.
\<close>

definition qa_chain :: "providers \<Rightarrow> runnable \<Rightarrow> chain_input \<Rightarrow> document list \<Rightarrow> item list" where
  "qa_chain env ch x docs =
     (let p = qa_prompt (combine_docs docs) x in
      case llm_reply env (chain_llm ch) p of
        (frags, err) \<Rightarrow>
          Effect (LLM_call Generate (chain_llm ch) p) #
          map (\<lambda>f. Emit [ascii ''answer'' \<mapsto> Str f]) frags @
          (case err of None \<Rightarrow> [] | Some e \<Rightarrow> [Raise e]))"

text \<open>
  The chain returned by \<open>_build_chain\<close>, streamed: the input is passed through,
  \<open>context\<close> is assigned from \<open>retrieve_docs\<close>, then \<open>answer\<close> from \<open>qa_chain\<close>.
  The answer chain needs the context, so its call comes after the retrieval. Chunks
  without the key \<open>answer\<close> are dropped by \<open>stream_answer\<close> inside one pull, so
  their exact position among the calls is not observable there.
\<close>

definition chain_stream :: "providers \<Rightarrow> runnable \<Rightarrow> chain_input \<Rightarrow> item list" where
  "chain_stream env ch x =
     Emit [ascii ''input'' \<mapsto> Str (x_input x),
           ascii ''chat_history'' \<mapsto> Messages (x_chat_history x)] #
     (case retrieve_docs env ch x of
        (its, Inl e) \<Rightarrow> its @ [Raise e]
      | (its, Inr docs) \<Rightarrow>
          its @ Emit [ascii ''context'' \<mapsto> Documents docs] # qa_chain env ch x docs)"

section \<open>\<open>stream_answer\<close>, a generator\<close>

text \<open>
  \<open>stream_answer\<close> contains \<open>yield\<close>, so calling it runs nothing: it returns a
  generator that remembers the question. Each \<open>next\<close> runs the body up to the next
  \<open>yield\<close>, to the end (\<open>StopIteration\<close>) or to an exception. The generator is either
  not started, suspended at the \<open>yield\<close> (with the rest of the response and
  \<open>full_answer\<close>), or finished.
\<close>

datatype generator = Created py_str | Suspended py_str "item list" py_str | Closed

datatype outcome = Yielded py_str | StopIteration | Raised py_error

text \<open>The object together with the record of the calls issued so far.\<close>

record world =
  obj :: ZhipuQAChain
  calls :: "event list"

definition stream_answer :: "py_str \<Rightarrow> generator" where
  "stream_answer question = Created question"

definition format_history :: "turn list \<Rightarrow> message list" where
  "format_history h =
     concat (map (\<lambda>(human, ai). [(ascii ''human'', human), (ascii ''ai'', ai)]) h)"

text \<open>
  The \<open>for res in response\<close> loop up to its next suspension: a chunk with the key
  \<open>answer\<close> extends \<open>full_answer\<close> and is yielded, any other chunk is passed over.
\<close>

datatype loop_result = Loop_yield py_str "item list" py_str | Loop_raise py_error | Loop_end py_str

fun for_loop :: "item list \<Rightarrow> py_str \<Rightarrow> event list \<Rightarrow> loop_result \<times> event list" where
  "for_loop [] full_answer tr = (Loop_end full_answer, tr)"
| "for_loop (Effect e # response) full_answer tr = for_loop response full_answer (tr @ [e])"
| "for_loop (Raise err # response) full_answer tr = (Loop_raise err, tr)"
| "for_loop (Emit res # response) full_answer tr =
     (case res (ascii ''answer'') of
        None \<Rightarrow> for_loop response full_answer tr
      | Some (Str a) \<Rightarrow> (Loop_yield a response (full_answer @ a), tr)
      | Some _ \<Rightarrow> (Loop_raise TypeError, tr))"

text \<open>
  Resuming the body: when the loop ends, the turn \<open>(question, full_answer)\<close> is
  appended to the history the object has at that moment.
\<close>

definition resume :: "py_str \<Rightarrow> item list \<Rightarrow> py_str \<Rightarrow> world \<Rightarrow> outcome \<times> world \<times> generator" where
  "resume question response full_answer w =
     (case for_loop response full_answer (calls w) of
        (Loop_yield a response' full_answer', tr) \<Rightarrow>
          (Yielded a, w\<lparr>calls := tr\<rparr>, Suspended question response' full_answer')
      | (Loop_raise err, tr) \<Rightarrow> (Raised err, w\<lparr>calls := tr\<rparr>, Closed)
      | (Loop_end full_answer', tr) \<Rightarrow>
          (StopIteration,
           w\<lparr>calls := tr,
             obj := (obj w)\<lparr>chat_history := chat_history (obj w) @ [(question, full_answer')]\<rparr>\<rparr>,
           Closed))"

text \<open>
  \<open>next\<close> on the generator, for any behaviour \<open>strm\<close> of \<open>self.chain.stream\<close>.
\<close>

fun next_with ::
  "(runnable \<Rightarrow> chain_input \<Rightarrow> item list) \<Rightarrow> world \<times> generator \<Rightarrow> outcome \<times> world \<times> generator" where
  "next_with strm (w, Closed) = (StopIteration, w, Closed)"
| "next_with strm (w, Created question) =
     (if py_strip question = [] then (StopIteration, w, Closed)
      else
        (let formatted_history = format_history (chat_history (obj w));
             response = strm (chain (obj w))
                          \<lparr>x_input = question, x_chat_history = formatted_history\<rparr>
         in resume question response [] w))"
| "next_with strm (w, Suspended question response full_answer) =
     resume question response full_answer w"

definition gen_next :: "providers \<Rightarrow> world \<times> generator \<Rightarrow> outcome \<times> world \<times> generator" where
  "gen_next env = next_with (chain_stream env)"

text \<open>
  Abandoning the generator (\<open>close\<close>, or dropping it): the body has no \<open>try\<close>, so
  nothing more of it runs.
\<close>

definition gen_close :: "world \<times> generator \<Rightarrow> world \<times> generator" where
  "gen_close s = (fst s, Closed)"

text \<open>
  A consumer that calls \<open>next\<close> up to \<open>n\<close> times and stops at the first call that does
  not yield.
\<close>

fun pull_with ::
  "(runnable \<Rightarrow> chain_input \<Rightarrow> item list) \<Rightarrow> nat \<Rightarrow> world \<times> generator \<Rightarrow>
   outcome list \<times> world \<times> generator" where
  "pull_with strm 0 s = ([], s)"
| "pull_with strm (Suc n) s =
     (case next_with strm s of
        (Yielded a, s') \<Rightarrow> (case pull_with strm n s' of (outs, s'') \<Rightarrow> (Yielded a # outs, s''))
      | (out, s') \<Rightarrow> ([out], s'))"

definition pull :: "providers \<Rightarrow> nat \<Rightarrow> world \<times> generator \<Rightarrow> outcome list \<times> world \<times> generator" where
  "pull env = pull_with (chain_stream env)"

fun yielded :: "outcome list \<Rightarrow> py_str list" where
  "yielded [] = []"
| "yielded (Yielded a # outs) = a # yielded outs"
| "yielded (out # outs) = yielded outs"

section \<open>The configuration update of the application\<close>

text \<open>
  The sidebar of \<open>app.py\<close> writes a changed slider value into the field of the
  object kept in the session; the object is constructed once per session.
\<close>

definition update_config :: "real \<Rightarrow> int \<Rightarrow> ZhipuQAChain \<Rightarrow> ZhipuQAChain" where
  "update_config temperature' top_k' qa =
     (let qa1 = (if temperature' \<noteq> temperature qa then qa\<lparr>temperature := temperature'\<rparr> else qa)
      in (if top_k' \<noteq> top_k qa1 then qa1\<lparr>top_k := top_k'\<rparr> else qa1))"

section \<open>Loading documents (\<open>create_db.py\<close>)\<close>

text \<open>
  \<open>str.split(sep)\<close> for a one-character separator; the result is never empty, so
  \<open>[-1]\<close> is \<open>last\<close>.
\<close>

fun py_split :: "nat \<Rightarrow> py_str \<Rightarrow> py_str list" where
  "py_split sep [] = [[]]"
| "py_split sep (c # cs) =
     (if c = sep then [] # py_split sep cs
      else (case py_split sep cs of w # ws \<Rightarrow> (c # w) # ws | [] \<Rightarrow> [[c]]))"

text \<open>
  \<open>str.lower\<close> on the ASCII letters. Outside ASCII the only code points whose
  lower-casing contains an ASCII letter are U+0130 (\<open>i\<close>) and U+212A (\<open>k\<close>), and
  neither letter occurs in a supported extension, so the membership test below is
  decided as in Python.
\<close>

definition py_lower :: "py_str \<Rightarrow> py_str" where
  "py_lower s = map (\<lambda>c. if 65 \<le> c \<and> c \<le> 90 then c + 32 else c) s"

definition file_ext :: "py_str \<Rightarrow> py_str" where
  "file_ext name = py_lower (last (py_split 46 name))"

definition supported_exts :: "py_str list" where
  "supported_exts = [ascii ''pdf'', ascii ''md'', ascii ''txt'', ascii ''docx'']"

text \<open>\<open>os.path.join\<close> of two components on a POSIX system.\<close>

definition os_path_join :: "py_str \<Rightarrow> py_str \<Rightarrow> py_str" where
  "os_path_join root_dir file =
     (if file \<noteq> [] \<and> hd file = 47 then file
      else if root_dir = [] \<or> last root_dir = 47 then root_dir @ file
      else root_dir @ 47 # file)"

datatype loader_class =
  PyMuPDFLoader | UnstructuredMarkdownLoader | UnstructuredFileLoader | UnstructuredWordDocumentLoader

datatype loader = Loader (loader_cls: loader_class) (file_path: py_str)

text \<open>
  A log record is the level and the message; the message is kept as the call site of
  the logger with the values formatted into it.
\<close>

datatype log_level = INFO | ERROR

datatype log_message =
    Loader_added loader_class py_str
  | Loader_failed py_str py_error
  | File_loaded py_str
  | File_failed py_str py_error

type_synonym log_record = "log_level \<times> log_message"

text \<open>
  The file system and the loader library: the triples \<open>os.walk\<close> produces, whether
  constructing a loader raises, and what \<open>loader.load()\<close> returns or raises.
\<close>

record loading_env =
  os_walk :: "py_str \<Rightarrow> (py_str \<times> py_str list \<times> py_str list) list"
  loader_init :: "loader_class \<Rightarrow> py_str \<Rightarrow> py_error option"
  loader_load :: "loader \<Rightarrow> py_error + document list"

text \<open>The first loop: the paths of the files whose extension is supported.\<close>

fun scan_files :: "py_str \<Rightarrow> py_str list \<Rightarrow> py_str list \<Rightarrow> py_str list" where
  "scan_files root_dir [] file_paths = file_paths"
| "scan_files root_dir (file # files) file_paths =
     scan_files root_dir files
       (if file_ext file \<in> set supported_exts then file_paths @ [os_path_join root_dir file]
        else file_paths)"

fun scan_walk :: "(py_str \<times> py_str list \<times> py_str list) list \<Rightarrow> py_str list \<Rightarrow> py_str list" where
  "scan_walk [] file_paths = file_paths"
| "scan_walk ((root_dir, dirs, files) # entries) file_paths =
     scan_walk entries (scan_files root_dir files file_paths)"

text \<open>
  The second loop: the \<open>if\<close>/\<open>elif\<close> chain picks the loader class from the
  extension of the whole path (no class for any other extension); a constructor that
  raises is logged as an error.
\<close>

definition loader_class_of :: "py_str \<Rightarrow> loader_class option" where
  "loader_class_of ext =
     (if ext = ascii ''pdf'' then Some PyMuPDFLoader
      else if ext = ascii ''md'' then Some UnstructuredMarkdownLoader
      else if ext = ascii ''txt'' then Some UnstructuredFileLoader
      else if ext = ascii ''docx'' then Some UnstructuredWordDocumentLoader
      else None)"

fun make_loaders ::
  "loading_env \<Rightarrow> py_str list \<Rightarrow> loader list \<times> log_record list \<Rightarrow> loader list \<times> log_record list" where
  "make_loaders env [] st = st"
| "make_loaders env (path # paths) (loaders, logged) =
     make_loaders env paths
       (case loader_class_of (file_ext path) of
          None \<Rightarrow> (loaders, logged)
        | Some cls \<Rightarrow>
            (case loader_init env cls path of
               None \<Rightarrow> (loaders @ [Loader cls path], logged @ [(INFO, Loader_added cls path)])
             | Some e \<Rightarrow> (loaders, logged @ [(ERROR, Loader_failed path e)])))"

text \<open>
  The third loop: the documents of each loader are appended; a \<open>load\<close> that raises
  is logged as an error and the loop goes on.
\<close>

fun load_all ::
  "loading_env \<Rightarrow> loader list \<Rightarrow> document list \<times> log_record list \<Rightarrow> document list \<times> log_record list" where
  "load_all env [] st = st"
| "load_all env (l # loaders) (docs, logged) =
     load_all env loaders
       (case loader_load env l of
          Inr ds \<Rightarrow> (docs @ ds, logged @ [(INFO, File_loaded (file_path l))])
        | Inl e \<Rightarrow> (docs, logged @ [(ERROR, File_failed (file_path l) e)]))"

definition load_walked ::
  "loading_env \<Rightarrow> (py_str \<times> py_str list \<times> py_str list) list \<Rightarrow> document list \<times> log_record list" where
  "load_walked env entries =
     (let file_paths = scan_walk entries [];
          (loaders, logged) = make_loaders env file_paths ([], [])
      in load_all env loaders ([], logged))"

definition load_documents :: "loading_env \<Rightarrow> py_str \<Rightarrow> document list \<times> log_record list" where
  "load_documents env folder_path = load_walked env (os_walk env folder_path)"

text \<open>
  What the three loops are expected to compute, said without loops: the paths of the
  supported files in the order of the walk, the loaders that could be constructed for
  them, and the documents a loader contributes (none when its \<open>load\<close> raises).
\<close>

definition supported_paths :: "(py_str \<times> py_str list \<times> py_str list) list \<Rightarrow> py_str list" where
  "supported_paths entries =
     concat (map (\<lambda>(root_dir, dirs, files).
                    map (os_path_join root_dir)
                      (filter (\<lambda>file. file_ext file \<in> set supported_exts) files))
               entries)"

definition built_loaders :: "loading_env \<Rightarrow> py_str list \<Rightarrow> loader list" where
  "built_loaders env paths =
     concat (map (\<lambda>path. case loader_class_of (file_ext path) of
                             None \<Rightarrow> []
                           | Some cls \<Rightarrow>
                               (case loader_init env cls path of
                                  None \<Rightarrow> [Loader cls path]
                                | Some e \<Rightarrow> []))
               paths)"

definition loaded_docs :: "loading_env \<Rightarrow> loader \<Rightarrow> document list" where
  "loaded_docs env l = (case loader_load env l of Inr ds \<Rightarrow> ds | Inl e \<Rightarrow> [])"

section \<open>Reading scripts and call records\<close>

text \<open>
  What a response script does when it is pulled to its end: the calls it issues, the
  answer fragments it hands over, and whether it ends normally.
\<close>

fun script_calls :: "item list \<Rightarrow> event list" where
  "script_calls [] = []"
| "script_calls (Effect e # r) = e # script_calls r"
| "script_calls (Raise err # r) = []"
| "script_calls (Emit res # r) =
     (case res (ascii ''answer'') of
        None \<Rightarrow> script_calls r
      | Some (Str a) \<Rightarrow> script_calls r
      | Some _ \<Rightarrow> [])"

fun script_answers :: "item list \<Rightarrow> py_str list" where
  "script_answers [] = []"
| "script_answers (Effect e # r) = script_answers r"
| "script_answers (Raise err # r) = []"
| "script_answers (Emit res # r) =
     (case res (ascii ''answer'') of
        None \<Rightarrow> script_answers r
      | Some (Str a) \<Rightarrow> a # script_answers r
      | Some _ \<Rightarrow> [])"

fun script_ok :: "item list \<Rightarrow> bool" where
  "script_ok [] = True"
| "script_ok (Effect e # r) = script_ok r"
| "script_ok (Raise err # r) = False"
| "script_ok (Emit res # r) =
     (case res (ascii ''answer'') of
        None \<Rightarrow> script_ok r
      | Some (Str a) \<Rightarrow> script_ok r
      | Some _ \<Rightarrow> False)"

text \<open>
  The response \<open>stream_answer\<close> asks the chain for: the question with the history of
  the object at that moment, formatted.
\<close>

definition input_of :: "world \<Rightarrow> py_str \<Rightarrow> chain_input" where
  "input_of w question =
     \<lparr>x_input = question, x_chat_history = format_history (chat_history (obj w))\<rparr>"

definition response_of ::
  "(runnable \<Rightarrow> chain_input \<Rightarrow> item list) \<Rightarrow> world \<Rightarrow> py_str \<Rightarrow> item list" where
  "response_of strm w question = strm (chain (obj w)) (input_of w question)"

datatype call_kind = Condensation | Retrieval | Generation

fun kind_of :: "event \<Rightarrow> call_kind" where
  "kind_of (LLM_call Condense llm p) = Condensation"
| "kind_of (LLM_call Generate llm p) = Generation"
| "kind_of (Retriever_call r q) = Retrieval"

fun retrieval_queries :: "event list \<Rightarrow> py_str list" where
  "retrieval_queries [] = []"
| "retrieval_queries (Retriever_call r q # es) = q # retrieval_queries es"
| "retrieval_queries (e # es) = retrieval_queries es"

text \<open>The calls issued between two states of the world.\<close>

definition calls_since :: "world \<Rightarrow> world \<Rightarrow> event list" where
  "calls_since w w' = drop (length (calls w)) (calls w')"

section \<open>Fixtures\<close>

text \<open>
  The object as \<open>app.py\<close> constructs it, stub providers that answer every prompt
  with two fragments and every query with one document, providers whose chat model
  fails after one fragment, providers whose chat model says nothing, and a folder
  in which one supported file cannot be loaded.
\<close>

definition demo_qa :: ZhipuQAChain where
  "demo_qa = init (ascii ''glm-4-plus'') 0.7 4 (ascii ''chroma2'') None"

definition demo_world :: world where
  "demo_world = \<lparr>obj = demo_qa, calls = []\<rparr>"

definition demo_turns :: "turn list" where
  "demo_turns = [(ascii ''q1'', ascii ''a1''), (ascii ''q2'', ascii ''a2''), (ascii ''q3'', ascii ''a3'')]"

definition talked_world :: world where
  "talked_world = \<lparr>obj = demo_qa\<lparr>chat_history := demo_turns\<rparr>, calls = []\<rparr>"

definition demo_docs :: "document list" where
  "demo_docs = [Document (ascii ''Paris is the capital of France.'') []]"

definition demo_providers :: providers where
  "demo_providers =
     \<lparr>llm_reply = (\<lambda>llm p. ([ascii ''Par'', ascii ''is''], None)),
      retriever_reply = (\<lambda>r q. Inr demo_docs)\<rparr>"

definition failing_providers :: providers where
  "failing_providers =
     \<lparr>llm_reply = (\<lambda>llm p. ([ascii ''Par''], Some (ProviderError (ascii ''timeout'')))),
      retriever_reply = (\<lambda>r q. Inr demo_docs)\<rparr>"

definition silent_providers :: providers where
  "silent_providers =
     \<lparr>llm_reply = (\<lambda>llm p. ([], None)),
      retriever_reply = (\<lambda>r q. Inr demo_docs)\<rparr>"

definition demo_loading_env :: loading_env where
  "demo_loading_env =
     \<lparr>os_walk = (\<lambda>folder. [(folder, [], [ascii ''a.pdf'', ascii ''run.exe'', ascii ''b.TXT'', ascii ''c.md''])]),
      loader_init = (\<lambda>cls path. None),
      loader_load = (\<lambda>l. if file_path l = ascii ''kb/b.TXT'' then Inl (ProviderError (ascii ''unreadable''))
                          else Inr [Document (file_path l) []])\<rparr>"

section \<open>Properties of the answer stream\<close>

lemma py_strip_empty_iff: "py_strip q = [] \<longleftrightarrow> (\<forall>c\<in>set q. py_isspace c)"
proof
  assume a: "py_strip q = []"
  show "\<forall>c\<in>set q. py_isspace c"
  proof (cases "dropWhile py_isspace q = []")
    case True
    then show ?thesis by simp
  next
    case False
    then have "\<not> py_isspace (hd (dropWhile py_isspace q))"
      by (rule hd_dropWhile)
    moreover have "hd (dropWhile py_isspace q) \<in> set (dropWhile py_isspace q)"
      using False by simp
    moreover from a have "\<forall>c\<in>set (dropWhile py_isspace q). py_isspace c"
      by (simp add: py_strip_def)
    ultimately show ?thesis by blast
  qed
next
  assume "\<forall>c\<in>set q. py_isspace c"
  then have "dropWhile py_isspace q = []"
    by simp
  then show "py_strip q = []"
    by (simp add: py_strip_def del: dropWhile_eq_Nil_conv)
qed

lemma for_loop_yield:
  "for_loop r fa tr = (Loop_yield a r' fa', tr') \<Longrightarrow>
     fa' = fa @ a \<and> script_answers r = a # script_answers r' \<and> script_ok r = script_ok r' \<and>
     (\<exists>used. tr' = tr @ used \<and> script_calls r = used @ script_calls r')"
proof (induction r fa tr rule: for_loop.induct)
  case (2 e response full_answer tr)
  then show ?case by fastforce
next
  case (4 res response full_answer tr)
  then show ?case
    by (cases "res (ascii ''answer'')") (auto split: py_value.splits)
qed simp_all

lemma for_loop_end:
  "for_loop r fa tr = (Loop_end fa', tr') \<Longrightarrow>
     fa' = fa \<and> script_answers r = [] \<and> script_ok r \<and> tr' = tr @ script_calls r"
proof (induction r fa tr rule: for_loop.induct)
  case (4 res response full_answer tr)
  then show ?case
    by (cases "res (ascii ''answer'')") (auto split: py_value.splits)
qed simp_all

lemma for_loop_raise:
  "for_loop r fa tr = (Loop_raise err, tr') \<Longrightarrow>
     script_answers r = [] \<and> \<not> script_ok r \<and> tr' = tr @ script_calls r"
proof (induction r fa tr rule: for_loop.induct)
  case (4 res response full_answer tr)
  then show ?case
    by (cases "res (ascii ''answer'')") (auto split: py_value.splits)
qed simp_all

lemma for_loop_ok_end:
  "script_ok r \<Longrightarrow> script_answers r = [] \<Longrightarrow> for_loop r fa tr = (Loop_end fa, tr @ script_calls r)"
proof (induction r fa tr rule: for_loop.induct)
  case (4 res response full_answer tr)
  then show ?case
    by (cases "res (ascii ''answer'')") (auto split: py_value.splits)
qed simp_all

lemma for_loop_ok_yield:
  "script_ok r \<Longrightarrow> script_answers r = a # as \<Longrightarrow>
     \<exists>r' used. for_loop r fa tr = (Loop_yield a r' (fa @ a), tr @ used) \<and> script_ok r' \<and>
       script_answers r' = as \<and> script_calls r = used @ script_calls r'"
proof (induction r fa tr rule: for_loop.induct)
  case (2 e response full_answer tr)
  then obtain r' used where
    "for_loop response full_answer (tr @ [e]) = (Loop_yield a r' (full_answer @ a), (tr @ [e]) @ used)"
    "script_ok r'" "script_answers r' = as" "script_calls response = used @ script_calls r'"
    by auto
  then show ?case
    by (intro exI [of _ r'] exI [of _ "e # used"]) simp
next
  case (4 res response full_answer tr)
  then show ?case
    by (cases "res (ascii ''answer'')") (auto split: py_value.splits)
qed simp_all


lemma resume_cases:
  "resume q r fa w = (out, w', g') \<Longrightarrow>
     (case out of
        Yielded a \<Rightarrow> obj w' = obj w \<and>
          (\<exists>r' used. g' = Suspended q r' (fa @ a) \<and> script_answers r = a # script_answers r' \<and>
             script_ok r = script_ok r' \<and> calls w' = calls w @ used \<and>
             script_calls r = used @ script_calls r')
      | Raised err \<Rightarrow> obj w' = obj w \<and> g' = Closed \<and> script_answers r = [] \<and> \<not> script_ok r \<and>
          calls w' = calls w @ script_calls r
      | StopIteration \<Rightarrow>
          obj w' = (obj w)\<lparr>chat_history := chat_history (obj w) @ [(q, fa)]\<rparr> \<and> g' = Closed \<and>
          script_answers r = [] \<and> script_ok r \<and> calls w' = calls w @ script_calls r)"
  unfolding resume_def
  by (auto split: prod.splits loop_result.splits
           dest!: for_loop_yield for_loop_end for_loop_raise)


lemma pull_suspended:
  "pull_with strm n (w, Suspended q r fa) = (outs, w', g') \<Longrightarrow>
     (\<exists>used. calls w' = calls w @ used \<and> prefix used (script_calls r) \<and>
        (StopIteration \<in> set outs \<longrightarrow> used = script_calls r)) \<and>
     prefix (yielded outs) (script_answers r) \<and>
     (if StopIteration \<in> set outs
      then outs = map Yielded (script_answers r) @ [StopIteration] \<and> script_ok r \<and> g' = Closed \<and>
           obj w' = (obj w)\<lparr>chat_history :=
                      chat_history (obj w) @ [(q, fa @ concat (script_answers r))]\<rparr>
      else obj w' = obj w)"
proof (induction n arbitrary: w r fa outs w' g')
  case 0
  then show ?case by simp
next
  case (Suc n)
  obtain out w1 g1 where nx: "resume q r fa w = (out, w1, g1)"
    by (cases "resume q r fa w") auto
  show ?case
  proof (cases out)
    case (Yielded a)
    with resume_cases [OF nx] obtain r1 used0 where
      o: "obj w1 = obj w" and g: "g1 = Suspended q r1 (fa @ a)" and
      an: "script_answers r = a # script_answers r1" and ok: "script_ok r = script_ok r1" and
      c: "calls w1 = calls w @ used0" and sc: "script_calls r = used0 @ script_calls r1"
      by auto
    obtain outs1 where p1: "pull_with strm n (w1, Suspended q r1 (fa @ a)) = (outs1, w', g')"
      and outs: "outs = Yielded a # outs1"
      using Suc.prems nx Yielded g by (auto split: prod.splits)
    note ih = Suc.IH [OF p1]
    from ih obtain used1 where u1: "calls w' = calls w1 @ used1" "prefix used1 (script_calls r1)"
      "StopIteration \<in> set outs1 \<longrightarrow> used1 = script_calls r1"
      by blast
    have a1: "\<exists>used. calls w' = calls w @ used \<and> prefix used (script_calls r) \<and>
        (StopIteration \<in> set outs \<longrightarrow> used = script_calls r)"
      using u1 c sc outs by (intro exI [of _ "used0 @ used1"]) auto
    have a2: "prefix (yielded outs) (script_answers r)"
      using ih outs an by simp
    have a3: "if StopIteration \<in> set outs
      then outs = map Yielded (script_answers r) @ [StopIteration] \<and> script_ok r \<and> g' = Closed \<and>
           obj w' = (obj w)\<lparr>chat_history :=
                      chat_history (obj w) @ [(q, fa @ concat (script_answers r))]\<rparr>
      else obj w' = obj w"
      using ih outs an ok o by (auto split: if_splits)
    from a1 a2 a3 show ?thesis by blast
  next
    case StopIteration
    with resume_cases [OF nx] Suc.prems nx show ?thesis
      by (auto split: prod.splits)
  next
    case (Raised err)
    with resume_cases [OF nx] Suc.prems nx show ?thesis
      by (auto split: prod.splits)
  qed
qed

lemma pull_created:
  "py_strip q \<noteq> [] \<Longrightarrow>
   pull_with strm (Suc n) (w, Created q) = pull_with strm (Suc n) (w, Suspended q (response_of strm w q) [])"
  by (simp add: response_of_def input_of_def Let_def)

lemma pull_ok:
  "script_ok r \<Longrightarrow> length (script_answers r) < n \<Longrightarrow>
   pull_with strm n (w, Suspended q r fa) =
     (map Yielded (script_answers r) @ [StopIteration],
      w\<lparr>calls := calls w @ script_calls r,
        obj := (obj w)\<lparr>chat_history := chat_history (obj w) @ [(q, fa @ concat (script_answers r))]\<rparr>\<rparr>,
      Closed)"
proof (induction n arbitrary: w r fa)
  case 0
  then show ?case by simp
next
  case (Suc n)
  show ?case
  proof (cases "script_answers r")
    case Nil
    with Suc.prems show ?thesis
      by (simp add: resume_def for_loop_ok_end)
  next
    case (Cons a as)
    with for_loop_ok_yield [OF Suc.prems(1) Cons, of fa "calls w"] obtain r' used where
      f: "for_loop r fa (calls w) = (Loop_yield a r' (fa @ a), calls w @ used)" and
      ok: "script_ok r'" and an: "script_answers r' = as" and sc: "script_calls r = used @ script_calls r'"
      by blast
    have "length (script_answers r') < n"
      using Suc.prems(2) Cons an by simp
    from Suc.IH [OF ok this, of "w\<lparr>calls := calls w @ used\<rparr>" "fa @ a"] f Cons an sc
    show ?thesis
      by (simp add: resume_def)
  qed
qed


lemma yielded_map [simp]: "yielded (map Yielded fs @ [StopIteration]) = fs"
  by (induction fs) simp_all

lemma calls_since_append: "calls w' = calls w @ used \<Longrightarrow> calls_since w w' = used"
  by (simp add: calls_since_def)

text \<open>
  Claim C1, amended. For every question, every history and every behaviour of the
  chain: as long as no \<open>next\<close> has returned \<open>StopIteration\<close> (the consumer stopped
  early, closed the generator, or a \<open>next\<close> raised) the history is what it was. Once
  the stream of a question that is not blank is exhausted, the outcomes are the
  yielded fragments followed by \<open>StopIteration\<close>, and exactly one turn, the raw
  question with the concatenation of the yielded fragments, has been appended; the
  append is made by the \<open>next\<close> that returns \<open>StopIteration\<close>, hence after the last
  fragment was yielded. The stream of a blank question is exhausted at once and
  nothing is appended.
\<close>

theorem stream_answer_records_turn_on_exhaustion:
  assumes "pull_with strm n (w, stream_answer q) = (outs, w', g')"
  shows "(StopIteration \<notin> set outs \<longrightarrow>
            chat_history (obj w') = chat_history (obj w) \<and>
            chat_history (obj (fst (gen_close (w', g')))) = chat_history (obj w))
       \<and> (StopIteration \<in> set outs \<and> py_strip q \<noteq> [] \<longrightarrow>
            outs = map Yielded (yielded outs) @ [StopIteration] \<and>
            chat_history (obj w') = chat_history (obj w) @ [(q, concat (yielded outs))])
       \<and> (StopIteration \<in> set outs \<and> py_strip q = [] \<longrightarrow>
            outs = [StopIteration] \<and> chat_history (obj w') = chat_history (obj w))"
proof (cases n)
  case 0
  with assms show ?thesis by (simp add: gen_close_def)
next
  case (Suc m)
  show ?thesis
  proof (cases "py_strip q = []")
    case True
    with assms Suc show ?thesis
      by (auto simp: stream_answer_def)
  next
    case False
    with assms Suc have
      "pull_with strm (Suc m) (w, Suspended q (response_of strm w q) []) = (outs, w', g')"
      by (simp add: stream_answer_def pull_created del: pull_with.simps)
    from pull_suspended [OF this] False show ?thesis
      by (auto simp: gen_close_def split: if_splits)
  qed
qed

text \<open>
  Claim C7. For every empty or whitespace-only question, \<open>stream_answer\<close> is a no-op:
  the first \<open>next\<close> ends the stream, no fragment is ever yielded, and the world (the
  object with its history, and the record of provider calls) is unchanged, whatever
  the chain would have done.
\<close>
theorem blank_question_is_noop:
  assumes "\<forall>c\<in>set q. py_isspace c"
  shows "next_with strm (w, stream_answer q) = (StopIteration, w, Closed)
       \<and> yielded (fst (pull_with strm n (w, stream_answer q))) = []
       \<and> fst (snd (pull_with strm n (w, stream_answer q))) = w"
proof -
  from assms have b: "py_strip q = []"
    by (simp add: py_strip_empty_iff)
  then show ?thesis
    by (cases n) (simp_all add: stream_answer_def)
qed

text \<open>
  Claim C6, amended. The empty question ends the call at once and silently: the
  first \<open>next\<close> returns \<open>StopIteration\<close>, not an exception; no provider is called and
  the object is unchanged, so nothing is retried and no substitute answer is produced.
\<close>
theorem empty_question_returns_silently:
  "next_with strm (w, stream_answer []) = (StopIteration, w, Closed)"
  by (simp add: stream_answer_def py_strip_def)

text \<open>
  Claim C10. When the response of the chain ends normally, pulling the stream to its
  end yields exactly the values found under the key \<open>answer\<close>, in order, and records
  the turn of the raw question with their concatenation; chunks without that key add
  nothing. In particular, when no chunk carries an answer, the first \<open>next\<close> ends the
  stream and the turn recorded has the empty string as its answer.
\<close>
theorem no_answer_chunks_records_empty_answer:
  assumes "py_strip q \<noteq> []"
      and "script_ok (response_of strm w q)"
      and "length (script_answers (response_of strm w q)) < n"
  shows "pull_with strm n (w, stream_answer q) =
           (map Yielded (script_answers (response_of strm w q)) @ [StopIteration],
            w\<lparr>calls := calls w @ script_calls (response_of strm w q),
              obj := (obj w)\<lparr>chat_history := chat_history (obj w) @
                       [(q, concat (script_answers (response_of strm w q)))]\<rparr>\<rparr>,
            Closed)
       \<and> (script_answers (response_of strm w q) = [] \<longrightarrow>
            fst (pull_with strm n (w, stream_answer q)) = [StopIteration] \<and>
            chat_history (obj (fst (snd (pull_with strm n (w, stream_answer q))))) =
              chat_history (obj w) @ [(q, [])])"
proof -
  from assms(3) obtain m where n: "n = Suc m"
    by (cases n) auto
  have "pull_with strm n (w, stream_answer q) =
          pull_with strm n (w, Suspended q (response_of strm w q) [])"
    unfolding n stream_answer_def using assms(1) by (rule pull_created)
  with pull_ok [OF assms(2,3), of strm w q "[]"] show ?thesis
    by simp
qed


lemma script_calls_answer_chunks:
  "script_calls (map (\<lambda>f. Emit [ascii ''answer'' \<mapsto> Str f]) frags @ tl_items) = script_calls tl_items"
  by (induction frags) simp_all

lemma script_calls_qa_chain:
  "script_calls (qa_chain env ch x docs) =
     [LLM_call Generate (chain_llm ch) (qa_prompt (combine_docs docs) x)]"
  by (simp add: qa_chain_def Let_def script_calls_answer_chunks split: prod.splits option.splits)

lemma passthrough_no_answer:
  "ascii ''answer'' \<noteq> ascii ''input''" "ascii ''answer'' \<noteq> ascii ''chat_history''"
  "ascii ''answer'' \<noteq> ascii ''context''" "ascii ''input'' \<noteq> ascii ''chat_history''"
  "ascii ''input'' \<noteq> ascii ''context''"
  by (simp_all add: ascii_def)

lemma script_calls_chain_empty:
  assumes "x_chat_history x = []"
  shows "script_calls (chain_stream env ch x) =
           Retriever_call (chain_retriever ch) (x_input x) #
           (case retriever_reply env (chain_retriever ch) (x_input x) of
              Inl e \<Rightarrow> []
            | Inr docs \<Rightarrow> [LLM_call Generate (chain_llm ch) (qa_prompt (combine_docs docs) x)])"
  using assms
  by (auto simp: chain_stream_def retrieve_docs_def passthrough_no_answer script_calls_qa_chain
           split: sum.splits)


lemma script_ok_chain_empty:
  assumes "x_chat_history x = []" and "script_ok (chain_stream env ch x)"
  shows "\<exists>docs. retriever_reply env (chain_retriever ch) (x_input x) = Inr docs"
  using assms
  by (auto simp: chain_stream_def retrieve_docs_def passthrough_no_answer split: sum.splits)




lemma pull_calls:
  assumes "pull_with strm n (w, stream_answer q) = (outs, w', g')"
  shows "prefix (calls_since w w') (script_calls (response_of strm w q)) \<and>
         (py_strip q = [] \<longrightarrow> calls_since w w' = []) \<and>
         (StopIteration \<in> set outs \<and> py_strip q \<noteq> [] \<longrightarrow>
            calls_since w w' = script_calls (response_of strm w q) \<and>
            script_ok (response_of strm w q))"
proof (cases n)
  case 0
  with assms show ?thesis by (simp add: calls_since_def)
next
  case (Suc m)
  show ?thesis
  proof (cases "py_strip q = []")
    case True
    with assms Suc show ?thesis
      by (auto simp: stream_answer_def calls_since_def)
  next
    case False
    with assms Suc have
      "pull_with strm (Suc m) (w, Suspended q (response_of strm w q) []) = (outs, w', g')"
      by (simp add: stream_answer_def pull_created del: pull_with.simps)
    from pull_suspended [OF this] False show ?thesis
      by (auto simp: calls_since_append split: if_splits)
  qed
qed

text \<open>
  Claim C4. For every question asked of an object whose history is empty, however far
  the answer stream is consumed: no condensation call is issued, the calls issued are
  at most one retrieval followed by at most one generation, every query given to the
  retriever is the raw question itself, and when the stream of a question that is not
  blank is exhausted the retriever has been called exactly once, with the raw question.
\<close>
theorem empty_history_query_is_raw_question:
  assumes "chat_history (obj w) = []"
      and "pull env n (w, stream_answer q) = (outs, w', g')"
  shows "prefix (map kind_of (calls_since w w')) [Retrieval, Generation]
       \<and> filter (\<lambda>e. kind_of e = Condensation) (calls_since w w') = []
       \<and> set (retrieval_queries (calls_since w w')) \<subseteq> {q}
       \<and> (StopIteration \<in> set outs \<and> py_strip q \<noteq> [] \<longrightarrow>
            retrieval_queries (calls_since w w') = [q])"
proof -
  let ?r = "response_of (chain_stream env) w q"
  let ?x = "input_of w q"
  let ?R = "Retriever_call (chain_retriever (chain (obj w))) q"
  have x: "x_chat_history ?x = []" "x_input ?x = q"
    using assms(1) by (simp_all add: input_of_def format_history_def)
  note pc = pull_calls [OF assms(2) [unfolded pull_def]]
  have sc: "script_calls ?r = [?R] \<and> \<not> script_ok ?r \<or>
            (\<exists>g. script_calls ?r = [?R, g] \<and> kind_of g = Generation)"
  proof (cases "retriever_reply env (chain_retriever (chain (obj w))) q")
    case (Inl e)
    moreover have "\<not> script_ok ?r"
      using script_ok_chain_empty [of ?x env "chain (obj w)"] x Inl
      by (auto simp: response_of_def)
    ultimately show ?thesis
      using script_calls_chain_empty [of ?x env "chain (obj w)"] x
      by (simp add: response_of_def)
  next
    case (Inr docs)
    then show ?thesis
      using script_calls_chain_empty [of ?x env "chain (obj w)"] x
      by (simp add: response_of_def)
  qed
  from pc have p: "prefix (calls_since w w') (script_calls ?r)"
    by blast
  from sc show ?thesis
  proof
    assume a: "script_calls ?r = [?R] \<and> \<not> script_ok ?r"
    with p have "calls_since w w' = [] \<or> calls_since w w' = [?R]"
      by (cases "calls_since w w'") auto
    with a pc show ?thesis by auto
  next
    assume "\<exists>g. script_calls ?r = [?R, g] \<and> kind_of g = Generation"
    then obtain g where g: "script_calls ?r = [?R, g]" "kind_of g = Generation"
      by blast
    with p have "calls_since w w' = [] \<or> calls_since w w' = [?R] \<or> calls_since w w' = [?R, g]"
      by (auto simp: prefix_Cons split: list.splits)
    with g pc show ?thesis
      by (cases g rule: kind_of.cases) auto
  qed
qed

section \<open>The properties at concrete inputs\<close>

lemmas demo_defs =
  demo_world_def demo_qa_def init_def build_chain_def get_vectordb_def demo_providers_def
  silent_providers_def failing_providers_def demo_docs_def
  pull_def gen_next_def stream_answer_def py_strip_def py_isspace_def ascii_def chain_stream_def
  retrieve_docs_def qa_chain_def resume_def format_history_def Let_def

lemma hi_not_blank: "py_strip (ascii ''hi'') \<noteq> []"
  by (simp add: py_strip_def py_isspace_def ascii_def)

lemma demo_pull_3:
  "fst (pull demo_providers 3 (demo_world, stream_answer (ascii ''hi''))) =
     [Yielded (ascii ''Par''), Yielded (ascii ''is''), StopIteration]"
  by (simp add: demo_defs numeral_3_eq_3)

lemma failing_pull_3:
  "fst (pull failing_providers 3 (demo_world, stream_answer (ascii ''hi''))) =
     [Yielded (ascii ''Par''), Raised (ProviderError (ascii ''timeout''))]"
  by (simp add: demo_defs numeral_3_eq_3)

lemma demo_pull_2:
  "fst (pull demo_providers 2 (demo_world, stream_answer (ascii ''hi''))) =
     [Yielded (ascii ''Par''), Yielded (ascii ''is'')]"
  by (simp add: demo_defs numeral_2_eq_2)

theorem stream_answer_records_turn_on_exhaustion_witness:
  "StopIteration \<notin> set (fst (pull demo_providers 2 (demo_world, stream_answer (ascii ''hi'')))) \<and>
   chat_history (obj (fst (snd (pull demo_providers 2 (demo_world, stream_answer (ascii ''hi'')))))) = [] \<and>
   py_strip (ascii ''hi'') \<noteq> [] \<and>
   StopIteration \<in> set (fst (pull demo_providers 3 (demo_world, stream_answer (ascii ''hi'')))) \<and>
   chat_history (obj (fst (snd (pull demo_providers 3 (demo_world, stream_answer (ascii ''hi'')))))) =
     [(ascii ''hi'', ascii ''Paris'')] \<and>
   py_strip [32] = [] \<and>
   StopIteration \<in> set (fst (pull demo_providers 3 (demo_world, stream_answer [32]))) \<and>
   chat_history (obj (fst (snd (pull demo_providers 3 (demo_world, stream_answer [32]))))) = [] \<and>
   fst (pull failing_providers 3 (demo_world, stream_answer (ascii ''hi''))) =
     [Yielded (ascii ''Par''), Raised (ProviderError (ascii ''timeout''))] \<and>
   chat_history (obj (fst (snd (pull failing_providers 3 (demo_world, stream_answer (ascii ''hi'')))))) = []"
proof -
  let ?pf = "pull failing_providers 3 (demo_world, stream_answer (ascii ''hi''))"
  let ?p2 = "pull demo_providers 2 (demo_world, stream_answer (ascii ''hi''))"
  let ?p3 = "pull demo_providers 3 (demo_world, stream_answer (ascii ''hi''))"
  let ?pb = "pull demo_providers 3 (demo_world, stream_answer [32])"
  have h: "chat_history (obj demo_world) = []"
    by (simp add: demo_world_def demo_qa_def init_def Let_def)
  have c: "ascii ''Paris'' = ascii ''Par'' @ ascii ''is''"
    by (simp add: ascii_def)
  have sp: "py_strip [32] = []"
    by (simp add: py_strip_def py_isspace_def)
  have pb: "fst ?pb = [StopIteration]"
    by (simp add: pull_def stream_answer_def sp numeral_3_eq_3)
  have "pull_with (chain_stream demo_providers) 2 (demo_world, stream_answer (ascii ''hi'')) =
          (fst ?p2, fst (snd ?p2), snd (snd ?p2))"
    by (simp add: pull_def)
  from stream_answer_records_turn_on_exhaustion [OF this]
  have a: "StopIteration \<notin> set (fst ?p2) \<longrightarrow> chat_history (obj (fst (snd ?p2))) = []"
    using h by simp
  have "pull_with (chain_stream demo_providers) 3 (demo_world, stream_answer (ascii ''hi'')) =
          (fst ?p3, fst (snd ?p3), snd (snd ?p3))"
    by (simp add: pull_def)
  from stream_answer_records_turn_on_exhaustion [OF this]
  have b: "StopIteration \<in> set (fst ?p3) \<longrightarrow>
             chat_history (obj (fst (snd ?p3))) = [(ascii ''hi'', concat (yielded (fst ?p3)))]"
    using h hi_not_blank by simp
  have "pull_with (chain_stream demo_providers) 3 (demo_world, stream_answer [32]) =
          (fst ?pb, fst (snd ?pb), snd (snd ?pb))"
    by (simp add: pull_def)
  from stream_answer_records_turn_on_exhaustion [OF this]
  have d: "StopIteration \<in> set (fst ?pb) \<longrightarrow> chat_history (obj (fst (snd ?pb))) = []"
    using h sp by simp
  have "pull_with (chain_stream failing_providers) 3 (demo_world, stream_answer (ascii ''hi'')) =
          (fst ?pf, fst (snd ?pf), snd (snd ?pf))"
    by (simp add: pull_def)
  from stream_answer_records_turn_on_exhaustion [OF this]
  have e: "StopIteration \<notin> set (fst ?pf) \<longrightarrow> chat_history (obj (fst (snd ?pf))) = []"
    using h by simp
  from a b d e show ?thesis
    using hi_not_blank sp by (simp add: demo_pull_2 demo_pull_3 failing_pull_3 pb c)
qed

text \<open>
  Claim C1 as stated fails for a blank question: the stream of the question made of
  one space is exhausted by the first \<open>next\<close>, and the history of three turns is
  still the same three turns; no turn was appended.
\<close>

theorem blank_question_exhausted_without_turn:
  "fst (pull demo_providers 1 (talked_world, stream_answer [32])) = [StopIteration] \<and>
   chat_history (obj (fst (snd (pull demo_providers 1
       (talked_world, stream_answer [32]))))) = demo_turns"
  by (simp add: pull_def stream_answer_def py_strip_def py_isspace_def talked_world_def)

theorem blank_question_is_noop_witness:
  "py_isspace 32 \<and> py_isspace 9 \<and> py_isspace 10 \<and> py_isspace 12288 \<and>
   next_with (chain_stream demo_providers) (demo_world, stream_answer [32, 9, 10, 12288]) =
     (StopIteration, demo_world, Closed) \<and>
   yielded (fst (pull_with (chain_stream demo_providers) 2 (demo_world, stream_answer [32, 9, 10, 12288]))) = [] \<and>
   fst (snd (pull_with (chain_stream demo_providers) 2 (demo_world, stream_answer [32, 9, 10, 12288]))) = demo_world"
proof -
  have h: "\<forall>c\<in>set [32, 9, 10, 12288]. py_isspace c"
    by (simp add: py_isspace_def)
  from blank_question_is_noop [OF h, of "chain_stream demo_providers" demo_world 2] h
  show ?thesis by simp
qed

text \<open>
  Claim C6 as stated fails: for the empty question the first \<open>next\<close> returns
  \<open>StopIteration\<close>, the normal end of a stream, and no error reaches the caller.
\<close>

theorem empty_question_raises_nothing:
  "gen_next demo_providers (demo_world, stream_answer []) = (StopIteration, demo_world, Closed)"
  by (simp add: gen_next_def stream_answer_def py_strip_def)

lemma silent_response:
  "script_ok (response_of (chain_stream silent_providers) demo_world (ascii ''hi'')) \<and>
   script_answers (response_of (chain_stream silent_providers) demo_world (ascii ''hi'')) = []"
  by (simp add: response_of_def input_of_def demo_defs)

theorem no_answer_chunks_records_empty_answer_witness:
  "py_strip (ascii ''hi'') \<noteq> [] \<and>
   script_ok (response_of (chain_stream silent_providers) demo_world (ascii ''hi'')) \<and>
   script_answers (response_of (chain_stream silent_providers) demo_world (ascii ''hi'')) = [] \<and>
   fst (pull_with (chain_stream silent_providers) 1 (demo_world, stream_answer (ascii ''hi''))) =
     [StopIteration] \<and>
   chat_history (obj (fst (snd (pull_with (chain_stream silent_providers) 1
       (demo_world, stream_answer (ascii ''hi'')))))) = [(ascii ''hi'', [])]"
proof -
  have h: "chat_history (obj demo_world) = []"
    by (simp add: demo_world_def demo_qa_def init_def Let_def)
  have l: "length (script_answers (response_of (chain_stream silent_providers) demo_world (ascii ''hi''))) < 1"
    using silent_response by simp
  from no_answer_chunks_records_empty_answer [OF hi_not_blank conjunct1 [OF silent_response] l]
  show ?thesis
    using hi_not_blank silent_response h by simp
qed

theorem empty_history_query_is_raw_question_witness:
  "chat_history (obj demo_world) = [] \<and>
   StopIteration \<in> set (fst (pull demo_providers 3 (demo_world, stream_answer (ascii ''hi'')))) \<and>
   filter (\<lambda>e. kind_of e = Condensation)
     (calls_since demo_world (fst (snd (pull demo_providers 3 (demo_world, stream_answer (ascii ''hi'')))))) = [] \<and>
   retrieval_queries
     (calls_since demo_world (fst (snd (pull demo_providers 3 (demo_world, stream_answer (ascii ''hi'')))))) =
     [ascii ''hi'']"
proof -
  let ?p3 = "pull demo_providers 3 (demo_world, stream_answer (ascii ''hi''))"
  have h: "chat_history (obj demo_world) = []"
    by (simp add: demo_world_def demo_qa_def init_def Let_def)
  have e: "pull demo_providers 3 (demo_world, stream_answer (ascii ''hi'')) =
             (fst ?p3, fst (snd ?p3), snd (snd ?p3))"
    by simp
  from empty_history_query_is_raw_question [OF h e]
  show ?thesis
    using h hi_not_blank by (simp add: demo_pull_3)
qed


section \<open>History truncation and configuration\<close>

lemma py_slice_from_neg:
  assumes "1 \<le> n" and "n < int (length xs)"
  shows "py_slice_from (- n) xs = drop (length xs - nat n) xs"
proof -
  have "nat (max (- n + int (length xs)) 0) = length xs - nat n"
    using assms by linarith
  then show ?thesis
    using assms by (simp add: py_slice_from_def Let_def)
qed

lemma truncate_history_keeps:
  assumes "1 \<le> n"
  shows "truncate_history n self =
           Inr (drop (length (chat_history self) - nat n) (chat_history self),
                self\<lparr>chat_history := drop (length (chat_history self) - nat n) (chat_history self)\<rparr>)"
proof (cases "int (length (chat_history self)) > n")
  case True
  then show ?thesis
    using assms by (simp add: truncate_history_def Let_def py_slice_from_neg)
next
  case False
  then have "length (chat_history self) - nat n = 0"
    by linarith
  with False show ?thesis
    by (simp add: truncate_history_def Let_def)
qed

lemma py_slice_from_suffix: "suffix (py_slice_from s xs) xs"
  by (simp add: py_slice_from_def Let_def suffix_drop)

text \<open>
  Claim C2. For every history and every bound \<open>n\<close> of at least 1,
  \<open>truncate_history\<close> returns and leaves the last \<open>n\<close> turns of the history in
  their order: a suffix of the old history, of length the minimum of the old length
  and \<open>n\<close>; when the history has at most \<open>n\<close> turns nothing changes.
\<close>
theorem truncate_history_most_recent:
  assumes "1 \<le> n"
  shows "truncate_history n self =
           Inr (drop (length (chat_history self) - nat n) (chat_history self),
                self\<lparr>chat_history := drop (length (chat_history self) - nat n) (chat_history self)\<rparr>)
         \<and> length (drop (length (chat_history self) - nat n) (chat_history self))
             = min (length (chat_history self)) (nat n)
         \<and> suffix (drop (length (chat_history self) - nat n) (chat_history self)) (chat_history self)
         \<and> (int (length (chat_history self)) \<le> n \<longrightarrow>
              truncate_history n self = Inr (chat_history self, self))"
proof -
  have a: "int (length (chat_history self)) \<le> n \<Longrightarrow> length (chat_history self) - nat n = 0"
    by linarith
  show ?thesis
    using assms a by (auto simp: truncate_history_keeps suffix_drop)
qed

theorem truncate_history_most_recent_witness:
  "truncate_history 2 (demo_qa\<lparr>chat_history := demo_turns\<rparr>) =
     Inr ([(ascii ''q2'', ascii ''a2''), (ascii ''q3'', ascii ''a3'')],
          demo_qa\<lparr>chat_history := [(ascii ''q2'', ascii ''a2''), (ascii ''q3'', ascii ''a3'')]\<rparr>) \<and>
   int (length (chat_history (demo_qa\<lparr>chat_history := demo_turns\<rparr>))) \<le> 5 \<and>
   truncate_history 5 (demo_qa\<lparr>chat_history := demo_turns\<rparr>) =
     Inr (demo_turns, demo_qa\<lparr>chat_history := demo_turns\<rparr>)"
  using truncate_history_most_recent [of 2 "demo_qa\<lparr>chat_history := demo_turns\<rparr>"]
        truncate_history_most_recent [of 5 "demo_qa\<lparr>chat_history := demo_turns\<rparr>"]
  by (simp add: demo_turns_def)

text \<open>
  Claim C3, amended. \<open>truncate_history\<close> does not validate its bound: for every
  integer bound, zero and the negative ones included, the call returns normally, and
  the history it leaves is a suffix of the previous one.
\<close>
theorem truncate_history_never_rejects:
  "\<exists>h. truncate_history n self = Inr (h, self\<lparr>chat_history := h\<rparr>) \<and> suffix h (chat_history self)"
  by (simp add: truncate_history_def Let_def py_slice_from_suffix)

text \<open>
  Claim C3 as stated fails: the bounds \<open>0\<close> and \<open>-1\<close> are accepted, and the call
  returns a history instead of an input error.
\<close>
theorem truncate_history_zero_accepted:
  "truncate_history 0 (demo_qa\<lparr>chat_history := demo_turns\<rparr>) =
     Inr (demo_turns, demo_qa\<lparr>chat_history := demo_turns\<rparr>) \<and>
   truncate_history (- 1) (demo_qa\<lparr>chat_history := demo_turns\<rparr>) =
     Inr ([(ascii ''q2'', ascii ''a2''), (ascii ''q3'', ascii ''a3'')],
          demo_qa\<lparr>chat_history := [(ascii ''q2'', ascii ''a2''), (ascii ''q3'', ascii ''a3'')]\<rparr>)"
  by (simp add: truncate_history_def Let_def py_slice_from_def demo_turns_def)

lemma response_of_update_config:
  "response_of strm (w\<lparr>obj := update_config t k (obj w)\<rparr>) q = response_of strm w q"
  by (simp add: response_of_def input_of_def update_config_def Let_def)

lemma update_config_chain: "chain (update_config t k qa) = chain qa"
  by (simp add: update_config_def Let_def)

lemma update_config_fields:
  "temperature (update_config t k qa) = t \<and> top_k (update_config t k qa) = k"
  by (simp add: update_config_def Let_def)

text \<open>
  Claim C5 at a concrete input. The object is constructed as in \<open>app.py\<close>
  (temperature 0.7, \<open>top_k\<close> 4), the sidebar then stores temperature 0.2 and
  \<open>top_k\<close> 10 in its fields, and a question is asked and answered: the retriever is
  still called with \<open>k = 4\<close> and the chat model with temperature 0.7, the values the
  chain captured when it was built.
\<close>
theorem config_update_not_seen_by_chain:
  "temperature (update_config 0.2 10 demo_qa) = 0.2 \<and>
   top_k (update_config 0.2 10 demo_qa) = 10 \<and>
   fst (pull demo_providers 3
          (\<lparr>obj = update_config 0.2 10 demo_qa, calls = []\<rparr>, stream_answer (ascii ''hi''))) =
     [Yielded (ascii ''Par''), Yielded (ascii ''is''), StopIteration] \<and>
   calls (fst (snd (pull demo_providers 3
          (\<lparr>obj = update_config 0.2 10 demo_qa, calls = []\<rparr>, stream_answer (ascii ''hi''))))) =
     [Retriever_call \<lparr>retr_vectordb = Chroma (ascii ''chroma2''), retr_k = 4\<rparr> (ascii ''hi''),
      LLM_call Generate \<lparr>llm_model_name = ascii ''glm-4-plus'', llm_temperature = 0.7\<rparr>
        (qa_prompt (combine_docs demo_docs) \<lparr>x_input = ascii ''hi'', x_chat_history = []\<rparr>)]"
  by (simp add: update_config_def demo_defs numeral_3_eq_3)

section \<open>Calls issued with a history\<close>






section \<open>Loading documents: skipped files\<close>

lemma scan_files_eq:
  "scan_files d fs acc =
     acc @ map (os_path_join d) (filter (\<lambda>f. file_ext f \<in> set supported_exts) fs)"
  by (induction fs arbitrary: acc) simp_all

lemma scan_walk_eq: "scan_walk es acc = acc @ supported_paths es"
  by (induction es arbitrary: acc) (auto simp: scan_files_eq supported_paths_def)

lemma make_loaders_fst:
  "fst (make_loaders env ps (ls, lg)) = ls @ built_loaders env ps"
  by (induction ps arbitrary: ls lg) (auto simp: built_loaders_def split: option.splits)

lemma load_all_eq:
  "load_all env ls (docs, lg) =
     (docs @ concat (map (loaded_docs env) ls),
      lg @ map (\<lambda>l. case loader_load env l of
                       Inr ds \<Rightarrow> (INFO, File_loaded (file_path l))
                     | Inl e \<Rightarrow> (ERROR, File_failed (file_path l) e)) ls)"
  by (induction ls arbitrary: docs lg) (auto simp: loaded_docs_def split: sum.splits)

lemma load_documents_eq:
  "load_documents env folder =
     (concat (map (loaded_docs env) (built_loaders env (supported_paths (os_walk env folder)))),
      snd (make_loaders env (supported_paths (os_walk env folder)) ([], [])) @
      map (\<lambda>l. case loader_load env l of
                  Inr ds \<Rightarrow> (INFO, File_loaded (file_path l))
                | Inl e \<Rightarrow> (ERROR, File_failed (file_path l) e))
        (built_loaders env (supported_paths (os_walk env folder))))"
proof -
  obtain ls lg where m: "make_loaders env (supported_paths (os_walk env folder)) ([], []) = (ls, lg)"
    by (cases "make_loaders env (supported_paths (os_walk env folder)) ([], [])")
  have "ls = built_loaders env (supported_paths (os_walk env folder))"
    using make_loaders_fst [of env "supported_paths (os_walk env folder)" "[]" "[]"] m by simp
  with m show ?thesis
    by (simp add: load_documents_def load_walked_def Let_def scan_walk_eq load_all_eq)
qed

lemma py_split_nonempty: "py_split sep s \<noteq> []"
  by (induction s) (auto split: list.splits)

lemma py_split_two: "sep \<in> set s \<Longrightarrow> \<exists>w v vs. py_split sep s = w # v # vs"
proof (induction s)
  case Nil
  then show ?case by simp
next
  case (Cons c s)
  show ?case
  proof (cases "c = sep")
    case True
    then show ?thesis
      using py_split_nonempty [of sep s] by (cases "py_split sep s") auto
  next
    case False
    with Cons obtain w v vs where "py_split sep s = w # v # vs"
      by auto
    with False show ?thesis by simp
  qed
qed

lemma last_py_split_Cons:
  "sep \<in> set s \<Longrightarrow> last (py_split sep (c # s)) = last (py_split sep s)"
  using py_split_two [of sep s] by auto

lemma last_py_split_append:
  "sep \<in> set s \<Longrightarrow> last (py_split sep (p @ s)) = last (py_split sep s)"
proof (induction p)
  case Nil
  then show ?case by simp
next
  case (Cons c p)
  then have "sep \<in> set (p @ s)"
    by simp
  then have "last (py_split sep (c # (p @ s))) = last (py_split sep (p @ s))"
    by (rule last_py_split_Cons)
  with Cons show ?case
    by (simp del: py_split.simps)
qed

lemma file_ext_join:
  assumes "46 \<in> set f"
  shows "file_ext (os_path_join d f) = file_ext f"
proof -
  have a: "last (py_split 46 (d @ f)) = last (py_split 46 f)"
    using assms by (rule last_py_split_append)
  have "last (py_split 46 ((d @ [47]) @ f)) = last (py_split 46 f)"
    using assms by (rule last_py_split_append)
  then have b: "last (py_split 46 (d @ 47 # f)) = last (py_split 46 f)"
    by (simp del: py_split.simps)
  from assms have "f \<noteq> []"
    by auto
  with a b show ?thesis
    by (simp add: file_ext_def os_path_join_def del: py_split.simps)
qed

lemma loader_class_supported:
  "loader_class_of ext = Some cls \<Longrightarrow> ext \<in> set supported_exts"
  by (auto simp: loader_class_of_def supported_exts_def split: if_splits)

lemma built_loader_mem:
  assumes "(d, ds, fs) \<in> set (os_walk env folder)" and "f \<in> set fs" and "46 \<in> set f"
      and "loader_class_of (file_ext f) = Some cls"
      and "loader_init env cls (os_path_join d f) = None"
  shows "Loader cls (os_path_join d f) \<in> set (built_loaders env (supported_paths (os_walk env folder)))"
proof -
  have "file_ext f \<in> set supported_exts"
    using assms(4) by (rule loader_class_supported)
  with assms(1,2) have "os_path_join d f \<in> set (supported_paths (os_walk env folder))"
    by (force simp: supported_paths_def)
  moreover have "loader_class_of (file_ext (os_path_join d f)) = Some cls"
    using assms(3,4) by (simp add: file_ext_join)
  ultimately show ?thesis
    using assms(5) by (force simp: built_loaders_def)
qed


lemma loading_env_os_walk [simp]:
  "loader_init (env\<lparr>os_walk := wk\<rparr>) = loader_init env"
  "loader_load (env\<lparr>os_walk := wk\<rparr>) = loader_load env"
  by simp_all

lemma make_loaders_os_walk:
  "make_loaders (env\<lparr>os_walk := wk\<rparr>) ps st = make_loaders env ps st"
proof (induction ps arbitrary: st)
  case Nil
  then show ?case by simp
next
  case (Cons p ps)
  obtain ls lg where st: "st = (ls, lg)"
    by (cases st)
  show ?case
    unfolding st by (simp add: Cons.IH split: option.splits)
qed

lemma load_all_os_walk:
  "load_all (env\<lparr>os_walk := wk\<rparr>) ls st = load_all env ls st"
proof (induction ls arbitrary: st)
  case Nil
  then show ?case by simp
next
  case (Cons l ls)
  obtain docs lg where st: "st = (docs, lg)"
    by (cases st)
  show ?case
    unfolding st by (simp add: Cons.IH)
qed

text \<open>
  Claim C9. The documents \<open>load_documents\<close> returns are those of the loaders built
  for the supported files of the walk, in order, a loader whose \<open>load\<close> raises
  contributing none. Every file of the walk with a supported extension whose loader
  could be built is attempted, whatever happens to the other files: when its
  \<open>load\<close> succeeds its documents are in the result and an \<open>INFO\<close> record is
  logged, when it raises an \<open>ERROR\<close> record with the path and the exception is
  logged. A file whose extension is not supported is skipped: the result is the one
  for the same folder without that file.
\<close>
theorem load_documents_skips_and_continues:
  "fst (load_documents env folder) =
     concat (map (loaded_docs env) (built_loaders env (supported_paths (os_walk env folder))))
   \<and> ((d, ds, fs) \<in> set (os_walk env folder) \<and> f \<in> set fs \<and> 46 \<in> set f \<and>
        loader_class_of (file_ext f) = Some cls \<and>
        loader_init env cls (os_path_join d f) = None \<longrightarrow>
        (case loader_load env (Loader cls (os_path_join d f)) of
           Inr loaded \<Rightarrow>
             set loaded \<subseteq> set (fst (load_documents env folder)) \<and>
             (INFO, File_loaded (os_path_join d f)) \<in> set (snd (load_documents env folder))
         | Inl e \<Rightarrow>
             (ERROR, File_failed (os_path_join d f) e) \<in> set (snd (load_documents env folder))))
   \<and> (os_walk env folder = pre @ (d', ds', earlier @ g # later) # post \<and>
        file_ext g \<notin> set supported_exts \<longrightarrow>
        load_documents env folder =
        load_documents (env\<lparr>os_walk := \<lambda>p. pre @ (d', ds', earlier @ later) # post\<rparr>) folder)"
proof -
  let ?ls = "built_loaders env (supported_paths (os_walk env folder))"
  have a: "fst (load_documents env folder) = concat (map (loaded_docs env) ?ls)"
    by (simp add: load_documents_eq)
  have b: "case loader_load env (Loader cls (os_path_join d f)) of
           Inr loaded \<Rightarrow>
             set loaded \<subseteq> set (fst (load_documents env folder)) \<and>
             (INFO, File_loaded (os_path_join d f)) \<in> set (snd (load_documents env folder))
         | Inl e \<Rightarrow>
             (ERROR, File_failed (os_path_join d f) e) \<in> set (snd (load_documents env folder))"
    if h: "(d, ds, fs) \<in> set (os_walk env folder)" "f \<in> set fs" "46 \<in> set f"
        "loader_class_of (file_ext f) = Some cls"
        "loader_init env cls (os_path_join d f) = None"
  proof -
    let ?l = "Loader cls (os_path_join d f)"
    have m: "?l \<in> set ?ls"
      using h by (rule built_loader_mem)
    show ?thesis
    proof (cases "loader_load env ?l")
      case (Inl e)
      with m have "(ERROR, File_failed (file_path ?l) e) \<in>
                     (\<lambda>l. case loader_load env l of
                             Inr ds \<Rightarrow> (INFO, File_loaded (file_path l))
                           | Inl e \<Rightarrow> (ERROR, File_failed (file_path l) e)) ` set ?ls"
        by force
      with Inl show ?thesis
        by (simp add: load_documents_eq)
    next
      case (Inr loaded)
      with m have "(INFO, File_loaded (file_path ?l)) \<in>
                     (\<lambda>l. case loader_load env l of
                             Inr ds \<Rightarrow> (INFO, File_loaded (file_path l))
                           | Inl e \<Rightarrow> (ERROR, File_failed (file_path l) e)) ` set ?ls"
        by force
      moreover have "set loaded \<subseteq> set (concat (map (loaded_docs env) ?ls))"
        using m Inr by (force simp: loaded_docs_def)
      ultimately show ?thesis
        using Inr by (simp add: load_documents_eq)
    qed
  qed
  have c: "load_documents env folder =
        load_documents (env\<lparr>os_walk := \<lambda>p. pre @ (d', ds', earlier @ later) # post\<rparr>) folder"
    if "os_walk env folder = pre @ (d', ds', earlier @ g # later) # post"
       "file_ext g \<notin> set supported_exts"
  proof -
    have "supported_paths (pre @ (d', ds', earlier @ g # later) # post) =
          supported_paths (pre @ (d', ds', earlier @ later) # post)"
      using that(2) by (simp add: supported_paths_def)
    with that(1) show ?thesis
      by (simp add: load_documents_def load_walked_def scan_walk_eq make_loaders_os_walk
            load_all_os_walk)
  qed
  from a b c show ?thesis by blast
qed


lemmas loading_defs =
  demo_loading_env_def load_documents_def load_walked_def Let_def file_ext_def py_lower_def
  supported_exts_def os_path_join_def loader_class_of_def ascii_def

lemma demo_load_documents:
  "load_documents demo_loading_env (ascii ''kb'') =
     ([Document (ascii ''kb/a.pdf'') [], Document (ascii ''kb/c.md'') []],
      [(INFO, Loader_added PyMuPDFLoader (ascii ''kb/a.pdf'')),
       (INFO, Loader_added UnstructuredFileLoader (ascii ''kb/b.TXT'')),
       (INFO, Loader_added UnstructuredMarkdownLoader (ascii ''kb/c.md'')),
       (INFO, File_loaded (ascii ''kb/a.pdf'')),
       (ERROR, File_failed (ascii ''kb/b.TXT'') (ProviderError (ascii ''unreadable''))),
       (INFO, File_loaded (ascii ''kb/c.md''))])"
  by (simp add: loading_defs)

lemma demo_walk:
  "os_walk demo_loading_env (ascii ''kb'') =
     [] @ (ascii ''kb'', [], [ascii ''a.pdf''] @ ascii ''run.exe'' # [ascii ''b.TXT'', ascii ''c.md'']) # []"
  by (simp add: demo_loading_env_def)

lemma demo_files:
  "46 \<in> set (ascii ''c.md'') \<and> 46 \<in> set (ascii ''b.TXT'') \<and>
   loader_class_of (file_ext (ascii ''c.md'')) = Some UnstructuredMarkdownLoader \<and>
   loader_class_of (file_ext (ascii ''b.TXT'')) = Some UnstructuredFileLoader \<and>
   file_ext (ascii ''run.exe'') \<notin> set supported_exts \<and>
   os_path_join (ascii ''kb'') (ascii ''c.md'') = ascii ''kb/c.md'' \<and>
   os_path_join (ascii ''kb'') (ascii ''b.TXT'') = ascii ''kb/b.TXT''"
  by (simp add: loading_defs)

lemma demo_loads:
  "loader_init demo_loading_env UnstructuredMarkdownLoader (ascii ''kb/c.md'') = None \<and>
   loader_init demo_loading_env UnstructuredFileLoader (ascii ''kb/b.TXT'') = None \<and>
   loader_load demo_loading_env (Loader UnstructuredMarkdownLoader (ascii ''kb/c.md'')) =
     Inr [Document (ascii ''kb/c.md'') []] \<and>
   loader_load demo_loading_env (Loader UnstructuredFileLoader (ascii ''kb/b.TXT'')) =
     Inl (ProviderError (ascii ''unreadable''))"
  by (simp add: demo_loading_env_def ascii_def)

theorem load_documents_skips_and_continues_witness:
  "load_documents demo_loading_env (ascii ''kb'') =
     ([Document (ascii ''kb/a.pdf'') [], Document (ascii ''kb/c.md'') []],
      [(INFO, Loader_added PyMuPDFLoader (ascii ''kb/a.pdf'')),
       (INFO, Loader_added UnstructuredFileLoader (ascii ''kb/b.TXT'')),
       (INFO, Loader_added UnstructuredMarkdownLoader (ascii ''kb/c.md'')),
       (INFO, File_loaded (ascii ''kb/a.pdf'')),
       (ERROR, File_failed (ascii ''kb/b.TXT'') (ProviderError (ascii ''unreadable''))),
       (INFO, File_loaded (ascii ''kb/c.md''))]) \<and>
   loader_load demo_loading_env (Loader UnstructuredFileLoader (ascii ''kb/b.TXT'')) =
     Inl (ProviderError (ascii ''unreadable'')) \<and>
   (ERROR, File_failed (ascii ''kb/b.TXT'') (ProviderError (ascii ''unreadable'')))
     \<in> set (snd (load_documents demo_loading_env (ascii ''kb''))) \<and>
   loader_load demo_loading_env (Loader UnstructuredMarkdownLoader (ascii ''kb/c.md'')) =
     Inr [Document (ascii ''kb/c.md'') []] \<and>
   set [Document (ascii ''kb/c.md'') []] \<subseteq> set (fst (load_documents demo_loading_env (ascii ''kb''))) \<and>
   (INFO, File_loaded (ascii ''kb/c.md'')) \<in> set (snd (load_documents demo_loading_env (ascii ''kb''))) \<and>
   file_ext (ascii ''run.exe'') \<notin> set supported_exts \<and>
   load_documents demo_loading_env (ascii ''kb'') =
     load_documents
       (demo_loading_env\<lparr>os_walk := \<lambda>p. [(ascii ''kb'', [], [ascii ''a.pdf'', ascii ''b.TXT'', ascii ''c.md''])]\<rparr>)
       (ascii ''kb'')"
proof -
  have m: "(ascii ''kb'', [], [ascii ''a.pdf'', ascii ''run.exe'', ascii ''b.TXT'', ascii ''c.md''])
             \<in> set (os_walk demo_loading_env (ascii ''kb''))"
    by (simp add: demo_loading_env_def)
  note t = load_documents_skips_and_continues
    [where env = demo_loading_env and folder = "ascii ''kb''" and d = "ascii ''kb''" and ds = "[]"
       and fs = "[ascii ''a.pdf'', ascii ''run.exe'', ascii ''b.TXT'', ascii ''c.md'']"
       and pre = "[]" and d' = "ascii ''kb''" and ds' = "[]" and earlier = "[ascii ''a.pdf'']"
       and g = "ascii ''run.exe''" and later = "[ascii ''b.TXT'', ascii ''c.md'']" and post = "[]"]
  have pa: "(ascii ''kb'', [], [ascii ''a.pdf'', ascii ''run.exe'', ascii ''b.TXT'', ascii ''c.md''])
               \<in> set (os_walk demo_loading_env (ascii ''kb'')) \<and>
            ascii ''c.md'' \<in> set [ascii ''a.pdf'', ascii ''run.exe'', ascii ''b.TXT'', ascii ''c.md''] \<and>
            46 \<in> set (ascii ''c.md'') \<and>
            loader_class_of (file_ext (ascii ''c.md'')) = Some UnstructuredMarkdownLoader \<and>
            loader_init demo_loading_env UnstructuredMarkdownLoader
              (os_path_join (ascii ''kb'') (ascii ''c.md'')) = None"
    using m demo_files demo_loads by simp
  have pb: "(ascii ''kb'', [], [ascii ''a.pdf'', ascii ''run.exe'', ascii ''b.TXT'', ascii ''c.md''])
               \<in> set (os_walk demo_loading_env (ascii ''kb'')) \<and>
            ascii ''b.TXT'' \<in> set [ascii ''a.pdf'', ascii ''run.exe'', ascii ''b.TXT'', ascii ''c.md''] \<and>
            46 \<in> set (ascii ''b.TXT'') \<and>
            loader_class_of (file_ext (ascii ''b.TXT'')) = Some UnstructuredFileLoader \<and>
            loader_init demo_loading_env UnstructuredFileLoader
              (os_path_join (ascii ''kb'') (ascii ''b.TXT'')) = None"
    using m demo_files demo_loads by simp
  have pc: "os_walk demo_loading_env (ascii ''kb'') =
              [] @ (ascii ''kb'', [], [ascii ''a.pdf''] @ ascii ''run.exe'' # [ascii ''b.TXT'', ascii ''c.md'']) # [] \<and>
            file_ext (ascii ''run.exe'') \<notin> set supported_exts"
    using demo_walk demo_files by blast
  from mp [OF t [where f = "ascii ''c.md''" and cls = UnstructuredMarkdownLoader,
                 THEN conjunct2, THEN conjunct1] pa]
  have a: "set [Document (ascii ''kb/c.md'') []] \<subseteq> set (fst (load_documents demo_loading_env (ascii ''kb''))) \<and>
           (INFO, File_loaded (ascii ''kb/c.md'')) \<in> set (snd (load_documents demo_loading_env (ascii ''kb'')))"
    using demo_files demo_loads by simp
  from mp [OF t [where f = "ascii ''b.TXT''" and cls = UnstructuredFileLoader,
                 THEN conjunct2, THEN conjunct1] pb]
  have b: "(ERROR, File_failed (ascii ''kb/b.TXT'') (ProviderError (ascii ''unreadable'')))
             \<in> set (snd (load_documents demo_loading_env (ascii ''kb'')))"
    using demo_files demo_loads by simp
  from mp [OF t [where f = "ascii ''c.md''" and cls = UnstructuredMarkdownLoader,
                 THEN conjunct2, THEN conjunct2] pc]
  have c: "load_documents demo_loading_env (ascii ''kb'') =
     load_documents
       (demo_loading_env\<lparr>os_walk := \<lambda>p. [(ascii ''kb'', [], [ascii ''a.pdf'', ascii ''b.TXT'', ascii ''c.md''])]\<rparr>)
       (ascii ''kb'')"
    by simp
  from a b c demo_files demo_loads demo_load_documents show ?thesis
    by blast
qed

end
